theory Spec2Isabelle
  imports Main "HOL-Library.AList" "HOL-Library.Sublist"
begin

section \<open>The pipeline orchestrator \<^verbatim>\<open>scripts/run_pipeline.py\<close>\<close>

text \<open>
  The script is one linear sequence of effects on three collaborators: the wall clock,
  the remote Drive, and the local file system. The embedding threads one record, the
  \<open>world\<close>, through every call of the script. Every call that can raise returns a sum
  (\<open>Inl\<close> the exception) together with the world at that moment, so that what exists on
  disk and what has been called when a run aborts can be stated.
\<close>

subsection \<open>The local file system\<close>

text \<open>
  A path is the list of its components below the working directory; \<open>os.path.join d n\<close>
  appends the component \<open>n\<close>. A node is a regular file with its content or a directory
  with its entries. A directory is read as a map: where a name occurs twice in the entry
  list only the first occurrence is visible.
\<close>

type_synonym path = "string list"

datatype node = File string | Dir "(string \<times> node) list"

datatype os_error =
    FileNotFoundError
  | FileExistsError
  | NotADirectoryError
  | IsADirectoryError
  | DirectoryNotEmpty
  | InvalidArgument

datatype platform = Posix | Windows

definition os_path_join :: "path \<Rightarrow> string \<Rightarrow> path" where
  "os_path_join d n = d @ [n]"

fun lookup :: "node \<Rightarrow> path \<Rightarrow> node option" where
  "lookup n [] = Some n"
| "lookup (File c) (x # xs) = None"
| "lookup (Dir es) (x # xs) =
     (case map_of es x of None \<Rightarrow> None | Some m \<Rightarrow> lookup m xs)"

text \<open>\<open>upd_dir d g t\<close> rewrites the entry list of the directory at \<open>d\<close> with \<open>g\<close>.\<close>

fun upd_dir :: "path \<Rightarrow> ((string \<times> node) list \<Rightarrow> (string \<times> node) list) \<Rightarrow> node \<Rightarrow> node" where
  "upd_dir [] g (Dir es) = Dir (g es)"
| "upd_dir [] g (File c) = File c"
| "upd_dir (x # xs) g (File c) = File c"
| "upd_dir (x # xs) g (Dir es) =
     (case map_of es x of
        None \<Rightarrow> Dir es
      | Some m \<Rightarrow> Dir (AList.update x (upd_dir xs g m) es))"

definition exists_path :: "node \<Rightarrow> path \<Rightarrow> bool" where
  "exists_path t p = (case lookup t p of None \<Rightarrow> False | Some n \<Rightarrow> True)"

definition isdir :: "node \<Rightarrow> path \<Rightarrow> bool" where
  "isdir t p = (case lookup t p of Some (Dir es) \<Rightarrow> True | _ \<Rightarrow> False)"

text \<open>The entries of a directory, \<open>None\<close> when the path is not a directory.\<close>

definition entries :: "node \<Rightarrow> path \<Rightarrow> (string \<times> node) list option" where
  "entries t p = (case lookup t p of Some (Dir es) \<Rightarrow> Some es | _ \<Rightarrow> None)"

text \<open>\<open>os.listdir\<close>: the names in a directory, each once, in the directory's order.\<close>

definition listdir :: "node \<Rightarrow> path \<Rightarrow> os_error + string list" where
  "listdir t p =
     (case lookup t p of
        None \<Rightarrow> Inl FileNotFoundError
      | Some (File c) \<Rightarrow> Inl NotADirectoryError
      | Some (Dir es) \<Rightarrow> Inr (remdups (map fst es)))"

text \<open>
  What stands in the way of creating or replacing the last component of \<open>p\<close>: the parent
  is missing, or is a regular file.
\<close>

definition parent_error :: "node \<Rightarrow> path \<Rightarrow> os_error option" where
  "parent_error t p =
     (case lookup t (butlast p) of
        None \<Rightarrow> Some FileNotFoundError
      | Some (File c) \<Rightarrow> Some NotADirectoryError
      | Some (Dir es) \<Rightarrow> None)"

definition put :: "node \<Rightarrow> path \<Rightarrow> node \<Rightarrow> node" where
  "put t p n = upd_dir (butlast p) (AList.update (last p) n) t"

definition remove :: "node \<Rightarrow> path \<Rightarrow> node" where
  "remove t p = upd_dir (butlast p) (AList.delete (last p)) t"

text \<open>\<open>os.mkdir\<close>: one new, empty directory; the parent must be a directory.\<close>

definition mkdir :: "node \<Rightarrow> path \<Rightarrow> os_error + node" where
  "mkdir t p =
     (if exists_path t p then Inl FileExistsError
      else (case parent_error t p of
              Some e \<Rightarrow> Inl e
            | None \<Rightarrow> Inr (put t p (Dir []))))"

text \<open>
  \<open>os.makedirs(name, exist_ok=True)\<close>, as the standard library writes it: create the
  parent first when it is missing (a \<open>FileExistsError\<close> of that recursive call is
  swallowed), then \<open>mkdir\<close> the leaf; an error of that \<open>mkdir\<close> is dropped when the
  leaf is a directory already.
\<close>

function makedirs :: "node \<Rightarrow> path \<Rightarrow> os_error + node" where
  "makedirs t p =
     (if p = [] then Inr t
      else
        let r = (if butlast p \<noteq> [] \<and> \<not> exists_path t (butlast p)
                 then (case makedirs t (butlast p) of
                         Inl FileExistsError \<Rightarrow> Inr t
                       | Inl e \<Rightarrow> Inl e
                       | Inr t1 \<Rightarrow> Inr t1)
                 else Inr t)
        in case r of
             Inl e \<Rightarrow> Inl e
           | Inr t1 \<Rightarrow>
               (case mkdir t1 p of
                  Inr t2 \<Rightarrow> Inr t2
                | Inl e \<Rightarrow> if isdir t1 p then Inr t1 else Inl e))"
  by pat_completeness auto
termination
  by (relation "measure (\<lambda>(t, p). length p)") auto

declare makedirs.simps [simp del]

text \<open>
  \<open>open(p, "w")\<close> followed by writes and the close: the file at \<open>p\<close> is created or
  truncated and holds exactly what was written.
\<close>

definition write_file :: "node \<Rightarrow> path \<Rightarrow> string \<Rightarrow> os_error + node" where
  "write_file t p c =
     (if p = [] then Inl IsADirectoryError
      else (case parent_error t p of
              Some e \<Rightarrow> Inl e
            | None \<Rightarrow>
                (case lookup t p of
                   Some (Dir es) \<Rightarrow> Inl IsADirectoryError
                 | _ \<Rightarrow> Inr (put t p (File c)))))"

text \<open>
  \<open>os.rename(src, dst)\<close>. The documented behaviour when \<open>dst\<close> exists differs by
  platform: on Windows a \<open>FileExistsError\<close> is always raised; on Unix a file replaces a
  file silently, a directory replaces an empty directory, and every other combination
  is an \<open>OSError\<close>. The script's header asks for it to be called from Power Automate or
  the Task Scheduler, so both platforms are kept. Failures that depend on permissions
  or on mount points are outside this model.
\<close>

definition rename :: "platform \<Rightarrow> node \<Rightarrow> path \<Rightarrow> path \<Rightarrow> os_error + node" where
  "rename pf t src dst =
     (case lookup t src of
        None \<Rightarrow> Inl FileNotFoundError
      | Some s \<Rightarrow>
          if src = [] \<or> dst = [] \<or> strict_prefix src dst then Inl InvalidArgument
          else (case parent_error t dst of
                 Some e \<Rightarrow> Inl e
               | None \<Rightarrow>
                   (case lookup t dst of
                      None \<Rightarrow> Inr (put (remove t src) dst s)
                    | Some d \<Rightarrow>
                        if src = dst then Inr t
                        else if pf = Windows then Inl FileExistsError
                        else (case s of
                                File c \<Rightarrow>
                                  (case d of
                                     File c' \<Rightarrow> Inr (put (remove t src) dst s)
                                   | Dir es' \<Rightarrow> Inl IsADirectoryError)
                              | Dir es \<Rightarrow>
                                  (case d of
                                     File c' \<Rightarrow> Inl NotADirectoryError
                                   | Dir es' \<Rightarrow>
                                       if es' = [] then Inr (put (remove t src) dst s)
                                       else Inl DirectoryNotEmpty)))))"

subsection \<open>The remote Drive\<close>

text \<open>
  A Drive file as the script reads it: the \<open>id\<close> and \<open>title\<close> keys, the metadata the two
  queries test, and the content that \<open>GetContentFile\<close> fetches (\<open>None\<close> for a file that
  cannot be downloaded).
\<close>

record drive_file =
  file_id :: string
  title :: string
  mimeType :: string
  trashed :: bool
  parents :: "string list"
  content :: "string option"

text \<open>
  The two query strings of \<open>list_drive_files\<close>:
  \<^verbatim>\<open>title = '<name>' and mimeType = 'application/vnd.google-apps.folder' and trashed=false\<close>
  and \<^verbatim>\<open>'<id>' in parents and trashed=false\<close>.
\<close>

datatype query = Q_folder_titled string | Q_in_parents string

definition folder_mime :: string where
  "folder_mime = ''application/vnd.google-apps.folder''"

fun matches :: "query \<Rightarrow> drive_file \<Rightarrow> bool" where
  "matches (Q_folder_titled n) f = (title f = n \<and> mimeType f = folder_mime \<and> \<not> trashed f)"
| "matches (Q_in_parents i) f = (i \<in> set (parents f) \<and> \<not> trashed f)"

subsection \<open>The world\<close>

datatype error =
    CalledProcessError string
  | AuthenticationError
  | ApiRequestError
  | FolderNotFound string
  | TimeoutError
  | FileNotDownloadableError string
  | OSError os_error path

text \<open>
  The calls the script makes, in the order it makes them. \<open>Ev_list_drive_files\<close> is one
  poll attempt; each attempt sends up to two \<open>Ev_ListFile\<close> requests.
\<close>

datatype event =
    Ev_subprocess string
  | Ev_auth
  | Ev_list_drive_files string
  | Ev_ListFile query
  | Ev_sleep nat
  | Ev_makedirs path
  | Ev_GetContentFile string path
  | Ev_rename path path
  | Ev_open_w path

record datetime =
  year :: nat
  month :: nat
  day :: nat
  hour :: nat
  minute :: nat

text \<open>
  \<open>clock\<close> is \<open>time.time()\<close> in seconds, \<open>disk\<close> the file tree below the working
  directory, \<open>trace\<close> the calls made so far. The other fields are the environment, which
  the script does not control: the Drive's content at each moment (\<open>None\<close> when the
  request fails), how long a remote call started at a given moment takes, by how much
  a sleep overshoots, whether the authentication succeeds, what a Python script run as
  a subprocess does (exit status zero or not, its duration, the disk it leaves), and
  the local calendar time of a clock value.
\<close>

record world =
  clock :: int
  disk :: node
  trace :: "event list"
  host :: platform
  drive_at :: "int \<Rightarrow> drive_file list option"
  call_delay :: "int \<Rightarrow> nat"
  sleep_extra :: "int \<Rightarrow> nat"
  auth_ok :: bool
  python :: "string \<Rightarrow> int \<Rightarrow> node \<Rightarrow> bool \<times> nat \<times> node"
  localtime :: "int \<Rightarrow> datetime"

type_synonym 'a result = "(error + 'a) \<times> world"

definition log :: "event \<Rightarrow> world \<Rightarrow> world" where
  "log e w = w\<lparr>trace := trace w @ [e]\<rparr>"

definition tick :: "nat \<Rightarrow> world \<Rightarrow> world" where
  "tick n w = w\<lparr>clock := clock w + int n\<rparr>"

text \<open>Sequencing: an exception ends the run with the world as it is.\<close>

definition seq :: "'a result \<Rightarrow> ('a \<Rightarrow> world \<Rightarrow> 'b result) \<Rightarrow> 'b result" where
  "seq r k = (case r of (Inl e, w) \<Rightarrow> (Inl e, w) | (Inr x, w) \<Rightarrow> k x w)"

subsection \<open>Configuration\<close>

definition EXPORT_SCRIPT :: string where
  "EXPORT_SCRIPT = ''scripts/01_export_s1_gee.py''"

definition PROCESS_SCRIPT :: string where
  "PROCESS_SCRIPT = ''scripts/02_process_s1_local.py''"

definition EXPORT_FOLDER :: string where
  "EXPORT_FOLDER = ''SpaceApps_SAR''"

definition LOCAL_EXPORTS :: path where
  "LOCAL_EXPORTS = [''outputs'', ''gee'']"

definition LOCAL_PROCESSED :: path where
  "LOCAL_PROCESSED = [''outputs'', ''processed'']"

definition PLOTS :: path where
  "PLOTS = [''outputs'', ''plots'']"

definition WAIT_TIME :: nat where
  "WAIT_TIME = 300"

definition MAX_WAIT :: nat where
  "MAX_WAIT = 7200"

subsection \<open>The calls of the script\<close>

text \<open>\<open>subprocess.run(["python", script], check=True)\<close>.\<close>

definition subprocess_run :: "string \<Rightarrow> world \<Rightarrow> unit result" where
  "subprocess_run script w =
     (case python w script (clock w) (disk w) of
        (ok, d, t) \<Rightarrow>
          let w1 = tick d ((log (Ev_subprocess script) w)\<lparr>disk := t\<rparr>)
          in if ok then (Inr (), w1) else (Inl (CalledProcessError script), w1))"

text \<open>\<open>GoogleAuth()\<close>, \<open>LocalWebserverAuth()\<close>, \<open>GoogleDrive(gauth)\<close>.\<close>

definition authenticate :: "world \<Rightarrow> unit result" where
  "authenticate w =
     (let w1 = log Ev_auth w
      in if auth_ok w then (Inr (), w1) else (Inl AuthenticationError, w1))"

text \<open>\<open>drive.ListFile({'q': q}).GetList()\<close>.\<close>

definition ListFile :: "query \<Rightarrow> world \<Rightarrow> drive_file list result" where
  "ListFile q w =
     (let w1 = tick (call_delay w (clock w)) (log (Ev_ListFile q) w)
      in case drive_at w (clock w) of
           None \<Rightarrow> (Inl ApiRequestError, w1)
         | Some d \<Rightarrow> (Inr (filter (matches q) d), w1))"

definition list_drive_files :: "string \<Rightarrow> world \<Rightarrow> drive_file list result" where
  "list_drive_files folder_name w =
     seq (ListFile (Q_folder_titled folder_name) (log (Ev_list_drive_files folder_name) w))
       (\<lambda>folder_list w1.
          case folder_list of
            [] \<Rightarrow> (Inl (FolderNotFound folder_name), w1)
          | folder # rest \<Rightarrow> ListFile (Q_in_parents (file_id folder)) w1)"

text \<open>\<open>time.sleep(n)\<close> suspends for at least \<open>n\<close> seconds.\<close>

definition time_sleep :: "nat \<Rightarrow> world \<Rightarrow> world" where
  "time_sleep n w = tick (n + sleep_extra w (clock w)) (log (Ev_sleep n) w)"

definition os_path_exists :: "path \<Rightarrow> world \<Rightarrow> bool" where
  "os_path_exists p w = exists_path (disk w) p"

definition os_makedirs :: "path \<Rightarrow> world \<Rightarrow> unit result" where
  "os_makedirs p w =
     (let w1 = log (Ev_makedirs p) w
      in case makedirs (disk w) p of
           Inl e \<Rightarrow> (Inl (OSError e p), w1)
         | Inr t \<Rightarrow> (Inr (), w1\<lparr>disk := t\<rparr>))"

definition os_listdir :: "path \<Rightarrow> world \<Rightarrow> string list result" where
  "os_listdir p w =
     (case listdir (disk w) p of
        Inl e \<Rightarrow> (Inl (OSError e p), w)
      | Inr names \<Rightarrow> (Inr names, w))"

definition os_rename :: "path \<Rightarrow> path \<Rightarrow> world \<Rightarrow> unit result" where
  "os_rename src dst w =
     (let w1 = log (Ev_rename src dst) w
      in case rename (host w) (disk w) src dst of
           Inl e \<Rightarrow> (Inl (OSError e src), w1)
         | Inr t \<Rightarrow> (Inr (), w1\<lparr>disk := t\<rparr>))"

text \<open>\<open>with open(p, "w") as f:\<close> and the writes of its body.\<close>

definition open_w :: "path \<Rightarrow> string \<Rightarrow> world \<Rightarrow> unit result" where
  "open_w p c w =
     (let w1 = log (Ev_open_w p) w
      in case write_file (disk w) p c of
           Inl e \<Rightarrow> (Inl (OSError e p), w1)
         | Inr t \<Rightarrow> (Inr (), w1\<lparr>disk := t\<rparr>))"

text \<open>
  \<open>f.GetContentFile(local_path)\<close>: the content is fetched from the Drive first and
  written to the local file after, so a failed fetch leaves no file.
\<close>

definition GetContentFile :: "drive_file \<Rightarrow> path \<Rightarrow> world \<Rightarrow> unit result" where
  "GetContentFile f local_path w =
     (let w1 = tick (call_delay w (clock w)) (log (Ev_GetContentFile (title f) local_path) w)
      in case drive_at w (clock w) of
           None \<Rightarrow> (Inl ApiRequestError, w1)
         | Some d \<Rightarrow>
             (case content f of
                None \<Rightarrow> (Inl (FileNotDownloadableError (title f)), w1)
              | Some c \<Rightarrow>
                  (case write_file (disk w1) local_path c of
                     Inl e \<Rightarrow> (Inl (OSError e local_path), w1)
                   | Inr t \<Rightarrow> (Inr (), w1\<lparr>disk := t\<rparr>))))"

subsection \<open>STEP 2: waiting for the exports\<close>

text \<open>
  The \<open>while\<close> loop of the script, with its two constants as parameters. It returns the
  pair (\<open>files_ready\<close>, \<open>files\<close>) at the loop's exit. The loop need not end (a zero
  interval on a clock that stands still): \<open>None\<close> is a run that never leaves it.
\<close>

partial_function (option) poll_loop ::
  "nat \<Rightarrow> nat \<Rightarrow> int \<Rightarrow> world \<Rightarrow> (bool \<times> drive_file list) result option" where
  "poll_loop wait_time max_wait start_time w =
     (if clock w - start_time < int max_wait then
        (case list_drive_files EXPORT_FOLDER w of
           (Inl e, w1) \<Rightarrow> Some (Inl e, w1)
         | (Inr files, w1) \<Rightarrow>
             if files \<noteq> [] then Some (Inr (True, files), w1)
             else poll_loop wait_time max_wait start_time (time_sleep wait_time w1))
      else Some (Inr (False, []), w))"

declare poll_loop.simps [code]

definition wait_for_exports :: "nat \<Rightarrow> nat \<Rightarrow> world \<Rightarrow> drive_file list result option" where
  "wait_for_exports wait_time max_wait w =
     (let start_time = clock w
      in case poll_loop wait_time max_wait start_time w of
           None \<Rightarrow> None
         | Some (Inl e, w1) \<Rightarrow> Some (Inl e, w1)
         | Some (Inr (files_ready, files), w1) \<Rightarrow>
             if \<not> files_ready then Some (Inl TimeoutError, w1)
             else Some (Inr files, w1))"

subsection \<open>STEP 3: downloading\<close>

fun download_loop :: "drive_file list \<Rightarrow> world \<Rightarrow> unit result" where
  "download_loop [] w = (Inr (), w)"
| "download_loop (f # rest) w =
     (let file_name = title f;
          local_path = os_path_join LOCAL_EXPORTS file_name
      in if \<not> os_path_exists local_path w
         then seq (GetContentFile f local_path w) (\<lambda>u. download_loop rest)
         else download_loop rest w)"

definition download_files :: "drive_file list \<Rightarrow> world \<Rightarrow> unit result" where
  "download_files files w =
     seq (os_makedirs LOCAL_EXPORTS w) (\<lambda>u. download_loop files)"

subsection \<open>STEP 5: organizing the outputs\<close>

definition digit :: "nat \<Rightarrow> char" where
  "digit d = ''0123456789'' ! d"

fun str_nat :: "nat \<Rightarrow> string" where
  "str_nat n = (if n < 10 then [digit n] else str_nat (n div 10) @ [digit (n mod 10)])"

declare str_nat.simps [simp del]

definition zero_pad :: "nat \<Rightarrow> nat \<Rightarrow> string" where
  "zero_pad k n = replicate (k - length (str_nat n)) (CHR ''0'') @ str_nat n"

text \<open>\<open>strftime("%Y%m%d_%H%M")\<close>.\<close>

definition strftime :: "datetime \<Rightarrow> string" where
  "strftime dt =
     zero_pad 4 (year dt) @ zero_pad 2 (month dt) @ zero_pad 2 (day dt) @ ''_'' @
     zero_pad 2 (hour dt) @ zero_pad 2 (minute dt)"

definition datetime_now :: "world \<Rightarrow> datetime" where
  "datetime_now w = localtime w (clock w)"

fun move_loop :: "path \<Rightarrow> path \<Rightarrow> string list \<Rightarrow> world \<Rightarrow> unit result" where
  "move_loop folder final_dir [] w = (Inr (), w)"
| "move_loop folder final_dir (f # rest) w =
     (let src = os_path_join folder f;
          dst = os_path_join final_dir f
      in seq (os_rename src dst w) (\<lambda>u. move_loop folder final_dir rest))"

text \<open>
  Both folders of the loop are written with a trailing separator (\<open>outputs/gee/\<close>,
  \<open>outputs/plots/\<close>), so \<open>os.path.exists(folder)\<close> holds of a directory only.
\<close>

definition folder_exists :: "path \<Rightarrow> world \<Rightarrow> bool" where
  "folder_exists folder w = isdir (disk w) folder"

fun move_folders :: "path \<Rightarrow> path list \<Rightarrow> world \<Rightarrow> unit result" where
  "move_folders final_dir [] w = (Inr (), w)"
| "move_folders final_dir (folder # rest) w =
     seq (if folder_exists folder w
          then seq (os_listdir folder w) (move_loop folder final_dir)
          else (Inr (), w))
       (\<lambda>u. move_folders final_dir rest)"

definition run_dir :: "string \<Rightarrow> path" where
  "run_dir timestamp = os_path_join LOCAL_PROCESSED (''run_'' @ timestamp)"

definition organize_outputs :: "world \<Rightarrow> (string \<times> path) result" where
  "organize_outputs w =
     seq (os_makedirs LOCAL_PROCESSED w)
       (\<lambda>u w1.
          let timestamp = strftime (datetime_now w1);
              final_dir = run_dir timestamp
          in seq (os_makedirs final_dir w1)
               (\<lambda>u w2.
                  seq (move_folders final_dir [LOCAL_EXPORTS, PLOTS] w2)
                    (\<lambda>u w3. (Inr (timestamp, final_dir), w3))))"

subsection \<open>STEP 6: the summary\<close>

definition nl :: string where
  "nl = [CHR 0x0A]"

definition summary_text :: "string \<Rightarrow> nat \<Rightarrow> string" where
  "summary_text timestamp n =
     ''SAR Tren Maya Analysis - Pipeline Run'' @ nl @
     ''Timestamp: '' @ timestamp @ nl @
     ''Files processed: '' @ str_nat n @ nl @
     ''Steps:'' @ nl @
     '' 1) Exported from GEE'' @ nl @
     '' 2) Downloaded from Drive'' @ nl @
     '' 3) Processed locally (filters, time-series, change maps)'' @ nl @
     '' 4) Stored in outputs folder'' @ nl"

definition write_summary :: "path \<Rightarrow> string \<Rightarrow> drive_file list \<Rightarrow> world \<Rightarrow> unit result" where
  "write_summary final_dir timestamp files w =
     (let summary_file = os_path_join final_dir ''SUMMARY.txt''
      in open_w summary_file (summary_text timestamp (length files)) w)"

subsection \<open>The whole script\<close>

text \<open>STEP 3 to STEP 6, with the listing that the poll returned.\<close>

definition after_poll :: "drive_file list \<Rightarrow> world \<Rightarrow> unit result" where
  "after_poll files w =
     seq (download_files files w)
       (\<lambda>u w1.
          seq (subprocess_run PROCESS_SCRIPT w1)
            (\<lambda>u w2.
               seq (organize_outputs w2)
                 (\<lambda>r w3. write_summary (snd r) (fst r) files w3)))"

definition run_pipeline :: "world \<Rightarrow> unit result option" where
  "run_pipeline w =
     (case seq (subprocess_run EXPORT_SCRIPT w) (\<lambda>u. authenticate) of
        (Inl e, w1) \<Rightarrow> Some (Inl e, w1)
      | (Inr u, w1) \<Rightarrow>
          (case wait_for_exports WAIT_TIME MAX_WAIT w1 of
             None \<Rightarrow> None
           | Some (Inl e, w2) \<Rightarrow> Some (Inl e, w2)
           | Some (Inr files, w2) \<Rightarrow> Some (after_poll files w2)))"

section \<open>Observing a run\<close>

text \<open>
  What a run did is read off its trace: \<open>polls\<close> counts the poll attempts (calls of
  \<open>list_drive_files\<close>), \<open>sleeps\<close> the calls of \<open>time.sleep\<close>; \<open>is_listing\<close> holds of every
  request to the Drive's listing, \<open>is_local\<close> of every call that writes to the local disk.
\<close>

fun is_poll :: "event \<Rightarrow> bool" where
  "is_poll (Ev_list_drive_files n) = True"
| "is_poll e = False"

fun is_listing :: "event \<Rightarrow> bool" where
  "is_listing (Ev_list_drive_files n) = True"
| "is_listing (Ev_ListFile q) = True"
| "is_listing e = False"

fun is_sleep :: "event \<Rightarrow> bool" where
  "is_sleep (Ev_sleep n) = True"
| "is_sleep e = False"

fun is_local :: "event \<Rightarrow> bool" where
  "is_local (Ev_makedirs p) = True"
| "is_local (Ev_GetContentFile n p) = True"
| "is_local (Ev_rename p q) = True"
| "is_local (Ev_open_w p) = True"
| "is_local e = False"

definition polls :: "world \<Rightarrow> nat" where
  "polls w = length (filter is_poll (trace w))"

definition sleeps :: "world \<Rightarrow> nat" where
  "sleeps w = length (filter is_sleep (trace w))"

text \<open>
  One round of the loop on an empty listing: the poll attempt, then the sleep.
  \<open>listing_empty w\<close> says that from the clock of \<open>w\<close> on the export folder is found and
  every listing of it is empty.
\<close>

definition empty_round :: "nat \<Rightarrow> world \<Rightarrow> world" where
  "empty_round wait_time w = time_sleep wait_time (snd (list_drive_files EXPORT_FOLDER w))"

definition listing_empty :: "world \<Rightarrow> bool" where
  "listing_empty w =
     (\<forall>t t'. clock w \<le> t \<and> t \<le> t' \<longrightarrow>
        (\<exists>d d' folder rest.
           drive_at w t = Some d \<and>
           filter (matches (Q_folder_titled EXPORT_FOLDER)) d = folder # rest \<and>
           drive_at w t' = Some d' \<and>
           filter (matches (Q_in_parents (file_id folder))) d' = []))"









definition local_path :: "string \<Rightarrow> path" where
  "local_path n = os_path_join LOCAL_EXPORTS n"

section \<open>Example worlds\<close>

definition sar_folder :: drive_file where
  "sar_folder = \<lparr>file_id = ''F1'', title = ''SpaceApps_SAR'', mimeType = folder_mime,
                  trashed = False, parents = [], content = None\<rparr>"

definition base_world :: world where
  "base_world =
     \<lparr>clock = 0, disk = Dir [], trace = [], host = Posix,
      drive_at = (\<lambda>t. Some [sar_folder]),
      call_delay = (\<lambda>t. 0), sleep_extra = (\<lambda>t. 0), auth_ok = True,
      python = (\<lambda>s t d. (True, 0, d)),
      localtime = (\<lambda>t. \<lparr>year = 2025, month = 10, day = 4, hour = 9, minute = 5\<rparr>)\<rparr>"


definition trashed_world :: world where
  "trashed_world = base_world\<lparr>drive_at := (\<lambda>t. Some [sar_folder\<lparr>trashed := True\<rparr>])\<rparr>"

definition export_a :: drive_file where
  "export_a = \<lparr>file_id = ''A1'', title = ''S1_VV.tif'', mimeType = ''image/tiff'',
                trashed = False, parents = [''F1''], content = Some ''VV''\<rparr>"

definition late_world :: world where
  "late_world =
     base_world\<lparr>drive_at := (\<lambda>t. if t < 300 then Some [sar_folder] else Some [sar_folder, export_a])\<rparr>"






definition archive_world :: world where
  "archive_world =
     base_world\<lparr>disk :=
       Dir [(''outputs'',
             Dir [(''gee'', Dir [(''S1_VV.tif'', File ''VV''), (''change.png'', File ''gee'')]),
                  (''plots'', Dir [(''change.png'', File ''plots''),
                                   (''series'', Dir [(''t0.png'', File ''png'')])]),
                  (''processed'', Dir [(''run_20251004_0905'', Dir [])])])]\<rparr>"

definition archive_end :: world where
  "archive_end =
     archive_world\<lparr>
       disk := Dir [(''outputs'',
                Dir [(''gee'', Dir []), (''plots'', Dir []),
                     (''processed'',
                      Dir [(''run_20251004_0905'',
                            Dir [(''S1_VV.tif'', File ''VV''),
                                 (''change.png'', File ''plots''),
                                 (''series'', Dir [(''t0.png'', File ''png'')])])])])],
       trace := [Ev_rename [''outputs'', ''gee'', ''S1_VV.tif'']
                   [''outputs'', ''processed'', ''run_20251004_0905'', ''S1_VV.tif''],
                 Ev_rename [''outputs'', ''gee'', ''change.png'']
                   [''outputs'', ''processed'', ''run_20251004_0905'', ''change.png''],
                 Ev_rename [''outputs'', ''plots'', ''change.png'']
                   [''outputs'', ''processed'', ''run_20251004_0905'', ''change.png''],
                 Ev_rename [''outputs'', ''plots'', ''series'']
                   [''outputs'', ''processed'', ''run_20251004_0905'', ''series'']]\<rparr>"





section \<open>Evaluating a run on an example world\<close>

lemmas world_defs = base_world_def sar_folder_def export_a_def folder_mime_def

lemmas config_defs = EXPORT_SCRIPT_def PROCESS_SCRIPT_def EXPORT_FOLDER_def LOCAL_EXPORTS_def
  LOCAL_PROCESSED_def PLOTS_def WAIT_TIME_def MAX_WAIT_def

lemmas call_defs = seq_def log_def tick_def subprocess_run_def authenticate_def ListFile_def
  list_drive_files_def time_sleep_def os_path_exists_def os_makedirs_def os_listdir_def
  os_rename_def open_w_def GetContentFile_def wait_for_exports_def download_files_def
  folder_exists_def run_dir_def organize_outputs_def write_summary_def after_poll_def
  run_pipeline_def datetime_now_def os_path_join_def Let_def

lemmas fs_defs = exists_path_def isdir_def entries_def listdir_def parent_error_def put_def
  remove_def mkdir_def write_file_def rename_def makedirs.simps

lemmas eval_defs = world_defs config_defs call_defs fs_defs poll_loop.simps
  strftime_def zero_pad_def str_nat.simps digit_def summary_text_def nl_def

section \<open>The polling loop on a folder that stays empty\<close>

lemma ListFile_snd:
  "snd (ListFile q w) = tick (call_delay w (clock w)) (log (Ev_ListFile q) w)"
  by (simp add: ListFile_def Let_def split: option.splits)

lemma list_drive_files_empty:
  assumes "listing_empty w"
  shows "list_drive_files EXPORT_FOLDER w = (Inr [], snd (list_drive_files EXPORT_FOLDER w))"
proof -
  let ?w1 = "log (Ev_list_drive_files EXPORT_FOLDER) w"
  let ?t' = "clock w + int (call_delay w (clock w))"
  from assms have "\<exists>d d' folder rest.
           drive_at w (clock w) = Some d \<and>
           filter (matches (Q_folder_titled EXPORT_FOLDER)) d = folder # rest \<and>
           drive_at w ?t' = Some d' \<and>
           filter (matches (Q_in_parents (file_id folder))) d' = []"
    unfolding listing_empty_def by simp
  then obtain d d' folder rest where
    d: "drive_at w (clock w) = Some d"
    and f: "filter (matches (Q_folder_titled EXPORT_FOLDER)) d = folder # rest"
    and d': "drive_at w ?t' = Some d'"
    and c: "filter (matches (Q_in_parents (file_id folder))) d' = []"
    by blast
  show ?thesis
    using d f d' c
    by (simp add: list_drive_files_def seq_def ListFile_def Let_def log_def tick_def)
qed

lemma empty_round_clock:
  "clock w + int wait_time \<le> clock (empty_round wait_time w)"
  by (simp add: empty_round_def time_sleep_def list_drive_files_def seq_def ListFile_def Let_def
      log_def tick_def split: option.splits list.splits)

lemma empty_round_env:
  "drive_at (empty_round wait_time w) = drive_at w"
  "call_delay (empty_round wait_time w) = call_delay w"
  "sleep_extra (empty_round wait_time w) = sleep_extra w"
  "disk (empty_round wait_time w) = disk w"
  by (simp_all add: empty_round_def time_sleep_def list_drive_files_def seq_def ListFile_def Let_def
      log_def tick_def split: option.splits list.splits)

lemma listing_empty_round:
  assumes "listing_empty w"
  shows "listing_empty (empty_round wait_time w)"
proof -
  have "clock w \<le> clock (empty_round wait_time w)"
    using empty_round_clock [of w wait_time] by simp
  with assms show ?thesis
    unfolding listing_empty_def empty_round_env
    by (meson order_trans)
qed

lemma poll_loop_empty_step:
  assumes "listing_empty w"
  shows "poll_loop wait_time max_wait start_time w =
           (if clock w - start_time < int max_wait
            then poll_loop wait_time max_wait start_time (empty_round wait_time w)
            else Some (Inr (False, []), w))"
  apply (subst poll_loop.simps)
  apply (subst list_drive_files_empty [OF assms])
  apply (simp add: empty_round_def)
  done

lemma poll_loop_empty:
  assumes "0 < wait_time"
  shows "listing_empty w \<Longrightarrow>
         \<exists>k. poll_loop wait_time max_wait start_time w =
                Some (Inr (False, []), (empty_round wait_time ^^ k) w) \<and>
             (\<forall>j<k. clock ((empty_round wait_time ^^ j) w) - start_time < int max_wait) \<and>
             \<not> clock ((empty_round wait_time ^^ k) w) - start_time < int max_wait"
proof (induction "nat (int max_wait - (clock w - start_time))" arbitrary: w rule: less_induct)
  case less
  show ?case
  proof (cases "clock w - start_time < int max_wait")
    case False
    then have "poll_loop wait_time max_wait start_time w = Some (Inr (False, []), w)"
      using poll_loop_empty_step [OF less.prems] by simp
    with False show ?thesis
      by (intro exI [of _ 0]) simp
  next
    case True
    let ?w = "empty_round wait_time w"
    have "nat (int max_wait - (clock ?w - start_time)) < nat (int max_wait - (clock w - start_time))"
      using True empty_round_clock [of w wait_time] assms by linarith
    from less.hyps [OF this listing_empty_round [OF less.prems]]
    obtain k where k: "poll_loop wait_time max_wait start_time ?w =
                Some (Inr (False, []), (empty_round wait_time ^^ k) ?w)"
      "\<forall>j<k. clock ((empty_round wait_time ^^ j) ?w) - start_time < int max_wait"
      "\<not> clock ((empty_round wait_time ^^ k) ?w) - start_time < int max_wait"
      by blast
    have "\<forall>j<Suc k. clock ((empty_round wait_time ^^ j) w) - start_time < int max_wait"
    proof (intro allI impI)
      fix j assume "j < Suc k"
      then show "clock ((empty_round wait_time ^^ j) w) - start_time < int max_wait"
        using True k(2) by (cases j) (simp_all add: funpow_swap1)
    qed
    moreover have "poll_loop wait_time max_wait start_time w =
        Some (Inr (False, []), (empty_round wait_time ^^ Suc k) w)"
      using poll_loop_empty_step [OF less.prems, of wait_time max_wait start_time] True k(1)
      by (simp add: funpow_swap1)
    moreover have "\<not> clock ((empty_round wait_time ^^ Suc k) w) - start_time < int max_wait"
      using k(3) by (simp add: funpow_swap1)
    ultimately show ?thesis by blast
  qed
qed

lemma listing_empty_mono:
  "listing_empty w \<Longrightarrow> drive_at w' = drive_at w \<Longrightarrow> clock w \<le> clock w' \<Longrightarrow> listing_empty w'"
  unfolding listing_empty_def by (metis order_trans)

lemma empty_round_trace:
  "listing_empty w \<Longrightarrow> \<exists>q1 q2. trace (empty_round wait_time w) =
      trace w @ [Ev_list_drive_files EXPORT_FOLDER, Ev_ListFile q1, Ev_ListFile q2, Ev_sleep wait_time]"
  apply (drule list_drive_files_empty)
  apply (simp add: empty_round_def time_sleep_def list_drive_files_def seq_def ListFile_def Let_def
      log_def tick_def split: option.splits list.splits)
  done

lemma empty_round_polls:
  "listing_empty w \<Longrightarrow> polls (empty_round wait_time w) = Suc (polls w)"
  using empty_round_trace [of w wait_time] by (auto simp: polls_def)

lemma empty_round_sleeps:
  "listing_empty w \<Longrightarrow> sleeps (empty_round wait_time w) = Suc (sleeps w)"
  using empty_round_trace [of w wait_time] by (auto simp: sleeps_def)

lemma empty_round_local:
  "listing_empty w \<Longrightarrow> filter is_local (trace (empty_round wait_time w)) = filter is_local (trace w)"
  using empty_round_trace [of w wait_time] by auto

lemma empty_round_last:
  "listing_empty w \<Longrightarrow> last (trace (empty_round wait_time w)) = Ev_sleep wait_time"
  using empty_round_trace [of w wait_time] by auto

lemma listing_empty_rounds:
  "listing_empty w \<Longrightarrow> listing_empty ((empty_round wait_time ^^ k) w)"
  by (induction k) (simp_all add: listing_empty_round)

lemma rounds_polls:
  "listing_empty w \<Longrightarrow> polls ((empty_round wait_time ^^ k) w) = polls w + k"
  by (induction k) (simp_all add: empty_round_polls listing_empty_rounds)

lemma rounds_sleeps:
  "listing_empty w \<Longrightarrow> sleeps ((empty_round wait_time ^^ k) w) = sleeps w + k"
  by (induction k) (simp_all add: empty_round_sleeps listing_empty_rounds)

lemma rounds_local:
  "listing_empty w \<Longrightarrow>
   filter is_local (trace ((empty_round wait_time ^^ k) w)) = filter is_local (trace w)"
  by (induction k) (simp_all add: empty_round_local listing_empty_rounds)

lemma rounds_disk:
  "disk ((empty_round wait_time ^^ k) w) = disk w"
  by (induction k) (simp_all add: empty_round_env)


lemma rounds_last:
  "listing_empty w \<Longrightarrow> 0 < k \<Longrightarrow> last (trace ((empty_round wait_time ^^ k) w)) = Ev_sleep wait_time"
  by (cases k) (simp_all add: empty_round_last listing_empty_rounds)



lemma wait_for_exports_empty:
  assumes "0 < wait_time" "listing_empty w"
  shows "\<exists>k. wait_for_exports wait_time max_wait w =
                Some (Inl TimeoutError, (empty_round wait_time ^^ k) w) \<and>
             (\<forall>j<k. clock ((empty_round wait_time ^^ j) w) - clock w < int max_wait) \<and>
             int max_wait \<le> clock ((empty_round wait_time ^^ k) w) - clock w"
proof -
  from poll_loop_empty [OF assms, of max_wait "clock w"]
  obtain k where "poll_loop wait_time max_wait (clock w) w =
                Some (Inr (False, []), (empty_round wait_time ^^ k) w)"
     "\<forall>j<k. clock ((empty_round wait_time ^^ j) w) - clock w < int max_wait"
     "\<not> clock ((empty_round wait_time ^^ k) w) - clock w < int max_wait"
    by blast
  then show ?thesis
    by (intro exI [of _ k]) (simp add: wait_for_exports_def)
qed



text \<open>
  C9: the elapsed time is tested only at the top of the loop and every empty listing is
  followed by a full sleep. When the folder stays empty the loop makes at least one
  attempt, sleeps once after each attempt (the last one included), the last call before
  the \<open>TimeoutError\<close> is that sleep, and the time elapsed at the failure is at least
  \<open>max_wait\<close>.
\<close>

theorem timeout_after_full_sleep:
  assumes "0 < wait_time" "0 < max_wait" "listing_empty w"
  shows "\<exists>w'. wait_for_exports wait_time max_wait w = Some (Inl TimeoutError, w') \<and>
           int max_wait \<le> clock w' - clock w \<and>
           1 \<le> polls w' - polls w \<and>
           sleeps w' - sleeps w = polls w' - polls w \<and>
           last (trace w') = Ev_sleep wait_time"
proof -
  from wait_for_exports_empty [OF assms(1) assms(3), of max_wait]
  obtain k where k: "wait_for_exports wait_time max_wait w =
                Some (Inl TimeoutError, (empty_round wait_time ^^ k) w)"
     "int max_wait \<le> clock ((empty_round wait_time ^^ k) w) - clock w"
    by blast
  have "0 < k"
  proof (rule ccontr)
    assume "\<not> 0 < k"
    then have "k = 0" by simp
    with k(2) assms(2) show False by simp
  qed
  then show ?thesis
    using k assms(3)
    by (intro exI [of _ "(empty_round wait_time ^^ k) w"])
       (simp add: rounds_polls rounds_sleeps rounds_last)
qed


lemma listing_empty_base: "listing_empty base_world"
  by (simp add: listing_empty_def base_world_def sar_folder_def EXPORT_FOLDER_def)



theorem timeout_after_full_sleep_witness:
  "\<exists>w'. wait_for_exports 300 7200 base_world = Some (Inl TimeoutError, w') \<and>
        7200 \<le> clock w' - clock base_world \<and>
        1 \<le> polls w' - polls base_world \<and>
        sleeps w' - sleeps base_world = polls w' - polls base_world \<and>
        last (trace w') = Ev_sleep 300"
  using timeout_after_full_sleep [of 300 7200 base_world] listing_empty_base by simp



section \<open>Runs that end in the polling step\<close>

lemma before_poll_ok:
  assumes "python w EXPORT_SCRIPT (clock w) (disk w) = (True, d, t)" "auth_ok w"
  shows "seq (subprocess_run EXPORT_SCRIPT w) (\<lambda>u. authenticate) =
           (Inr (), log Ev_auth (tick d ((log (Ev_subprocess EXPORT_SCRIPT) w)\<lparr>disk := t\<rparr>)))"
  using assms by (simp add: seq_def subprocess_run_def authenticate_def Let_def log_def tick_def)

text \<open>
  C1: when the export script and the authentication succeed and every listing of the
  folder is empty, the run ends in \<open>TimeoutError\<close>; no call that touches the local disk
  (\<open>os.makedirs\<close>, \<open>GetContentFile\<close>, \<open>os.rename\<close>, \<open>open\<close>) is made, and the disk is as the
  export script left it.
\<close>

theorem timeout_stops_the_run:
  assumes "python w EXPORT_SCRIPT (clock w) (disk w) = (True, d, t)"
      and "auth_ok w"
      and "listing_empty w"
  shows "\<exists>w'. run_pipeline w = Some (Inl TimeoutError, w') \<and>
           filter is_local (trace w') = filter is_local (trace w) \<and>
           disk w' = t"
proof -
  let ?w1 = "log Ev_auth (tick d ((log (Ev_subprocess EXPORT_SCRIPT) w)\<lparr>disk := t\<rparr>))"
  have le: "listing_empty ?w1"
    using assms(3) by (rule listing_empty_mono) (simp_all add: log_def tick_def)
  have "0 < WAIT_TIME" by (simp add: WAIT_TIME_def)
  from wait_for_exports_empty [OF this le, of MAX_WAIT]
  obtain k where k: "wait_for_exports WAIT_TIME MAX_WAIT ?w1 =
      Some (Inl TimeoutError, (empty_round WAIT_TIME ^^ k) ?w1)"
    by blast
  have "run_pipeline w = Some (Inl TimeoutError, (empty_round WAIT_TIME ^^ k) ?w1)"
    using before_poll_ok [OF assms(1,2)] k by (simp add: run_pipeline_def)
  moreover have "filter is_local (trace ((empty_round WAIT_TIME ^^ k) ?w1)) = filter is_local (trace w)"
    using rounds_local [OF le, where wait_time = WAIT_TIME and k = k] by (simp add: log_def tick_def)
  moreover have "disk ((empty_round WAIT_TIME ^^ k) ?w1) = t"
    by (simp add: rounds_disk log_def tick_def)
  ultimately show ?thesis by blast
qed

theorem timeout_stops_the_run_witness:
  "\<exists>w'. run_pipeline base_world = Some (Inl TimeoutError, w') \<and>
        filter is_local (trace w') = [] \<and> disk w' = Dir []"
proof -
  have "python base_world EXPORT_SCRIPT (clock base_world) (disk base_world) = (True, 0, Dir [])"
    by (simp add: base_world_def)
  moreover have "auth_ok base_world" by (simp add: base_world_def)
  moreover have "trace base_world = []" by (simp add: base_world_def)
  ultimately show ?thesis
    using timeout_stops_the_run [of base_world 0 "Dir []"] listing_empty_base by simp
qed

text \<open>
  C7: when the first folder query finds no folder with the configured title that is not
  trashed, the run fails with the exception of \<open>list_drive_files\<close> after that one poll
  attempt: no sleep and no call on the local disk precedes it.
\<close>

theorem missing_folder_fails_first:
  assumes "python w EXPORT_SCRIPT (clock w) (disk w) = (True, d, t)"
      and "auth_ok w"
      and "drive_at w (clock w + int d) = Some dr"
      and "filter (matches (Q_folder_titled EXPORT_FOLDER)) dr = []"
  shows "\<exists>w'. run_pipeline w = Some (Inl (FolderNotFound EXPORT_FOLDER), w') \<and>
           polls w' = Suc (polls w) \<and>
           sleeps w' = sleeps w \<and>
           filter is_local (trace w') = filter is_local (trace w) \<and>
           disk w' = t"
  using assms before_poll_ok [OF assms(1,2)]
  by (simp add: run_pipeline_def wait_for_exports_def poll_loop.simps list_drive_files_def
      ListFile_def seq_def log_def tick_def Let_def MAX_WAIT_def polls_def sleeps_def)

theorem missing_folder_fails_first_witness:
  "\<exists>w'. run_pipeline trashed_world = Some (Inl (FolderNotFound EXPORT_FOLDER), w') \<and>
        polls w' = 1 \<and> sleeps w' = 0 \<and> filter is_local (trace w') = [] \<and> disk w' = Dir []"
proof -
  have "python trashed_world EXPORT_SCRIPT (clock trashed_world) (disk trashed_world) = (True, 0, Dir [])"
    by (simp add: trashed_world_def base_world_def)
  moreover have "auth_ok trashed_world" by (simp add: trashed_world_def base_world_def)
  moreover have "trace trashed_world = []" by (simp add: trashed_world_def base_world_def)
  moreover have "drive_at trashed_world (clock trashed_world + int 0) = Some [sar_folder\<lparr>trashed := True\<rparr>]"
    by (simp add: trashed_world_def base_world_def)
  moreover have "filter (matches (Q_folder_titled EXPORT_FOLDER)) [sar_folder\<lparr>trashed := True\<rparr>] = []"
    by simp
  ultimately show ?thesis
    using missing_folder_fails_first [of trashed_world 0 "Dir []" "[sar_folder\<lparr>trashed := True\<rparr>]"]
    by (simp add: polls_def sleeps_def)
qed

section \<open>What each step adds to the trace\<close>

lemma seq_obs:
  assumes "\<And>e w1. r = (Inl e, w1) \<Longrightarrow> obs w1 = X"
      and "\<And>x w1. r = (Inr x, w1) \<Longrightarrow> obs (snd (k x w1)) = X"
  shows "obs (snd (seq r k)) = X"
proof (cases r)
  case (Pair a w1)
  then show ?thesis using assms by (cases a) (simp_all add: seq_def)
qed

lemma seq_Inr:
  "seq r k = (Inr y, w') \<Longrightarrow> \<exists>x w1. r = (Inr x, w1) \<and> k x w1 = (Inr y, w')"
  by (cases r) (auto simp: seq_def split: sum.splits)

lemma os_makedirs_trace: "trace (snd (os_makedirs p w)) = trace w @ [Ev_makedirs p]"
  by (simp add: os_makedirs_def Let_def log_def split: sum.splits)

lemma os_rename_trace: "trace (snd (os_rename p q w)) = trace w @ [Ev_rename p q]"
  by (simp add: os_rename_def Let_def log_def split: sum.splits)

lemma open_w_trace: "trace (snd (open_w p c w)) = trace w @ [Ev_open_w p]"
  by (simp add: open_w_def Let_def log_def split: sum.splits)

lemma os_listdir_world: "snd (os_listdir p w) = w"
  by (simp add: os_listdir_def split: sum.splits)

lemma GetContentFile_trace:
  "trace (snd (GetContentFile f p w)) = trace w @ [Ev_GetContentFile (title f) p]"
  by (simp add: GetContentFile_def Let_def log_def tick_def split: sum.splits option.splits)

lemma subprocess_run_trace:
  "trace (snd (subprocess_run s w)) = trace w @ [Ev_subprocess s]"
  by (simp add: subprocess_run_def Let_def log_def tick_def split: prod.splits)

lemma download_loop_filter:
  assumes "\<And>n p. \<not> P (Ev_GetContentFile n p)"
  shows "filter P (trace (snd (download_loop files w))) = filter P (trace w)"
proof (induction files arbitrary: w)
  case Nil
  show ?case by simp
next
  case (Cons f rest)
  show ?case
  proof (cases "os_path_exists (os_path_join LOCAL_EXPORTS (title f)) w")
    case True
    then show ?thesis using Cons by (simp add: Let_def)
  next
    case False
    let ?p = "os_path_join LOCAL_EXPORTS (title f)"
    have "filter P (trace (snd (seq (GetContentFile f ?p w) (\<lambda>u. download_loop rest)))) =
          filter P (trace w)"
    proof (rule seq_obs [where obs = "\<lambda>w. filter P (trace w)"])
      fix e w1 assume "GetContentFile f ?p w = (Inl e, w1)"
      then have "w1 = snd (GetContentFile f ?p w)" by simp
      then show "filter P (trace w1) = filter P (trace w)"
        using assms by (simp add: GetContentFile_trace)
    next
      fix x w1 assume "GetContentFile f ?p w = (Inr x, w1)"
      then have "w1 = snd (GetContentFile f ?p w)" by simp
      then show "filter P (trace (snd (download_loop rest w1))) = filter P (trace w)"
        using assms Cons by (simp add: GetContentFile_trace)
    qed
    with False show ?thesis by (simp add: Let_def)
  qed
qed

lemma download_files_filter:
  assumes "\<And>n p. \<not> P (Ev_GetContentFile n p)" "\<And>p. \<not> P (Ev_makedirs p)"
  shows "filter P (trace (snd (download_files files w))) = filter P (trace w)"
  unfolding download_files_def
proof (rule seq_obs [where obs = "\<lambda>w. filter P (trace w)"])
  fix e w1 assume "os_makedirs LOCAL_EXPORTS w = (Inl e, w1)"
  then have "w1 = snd (os_makedirs LOCAL_EXPORTS w)" by simp
  then show "filter P (trace w1) = filter P (trace w)"
    using assms by (simp add: os_makedirs_trace)
next
  fix x w1 assume "os_makedirs LOCAL_EXPORTS w = (Inr x, w1)"
  then have "w1 = snd (os_makedirs LOCAL_EXPORTS w)" by simp
  then show "filter P (trace (snd (download_loop files w1))) = filter P (trace w)"
    using assms by (simp add: os_makedirs_trace download_loop_filter)
qed

lemma move_loop_filter:
  assumes "\<And>p q. \<not> P (Ev_rename p q)"
  shows "filter P (trace (snd (move_loop folder final_dir names w))) = filter P (trace w)"
proof (induction names arbitrary: w)
  case Nil
  show ?case by simp
next
  case (Cons f rest)
  let ?src = "os_path_join folder f" and ?dst = "os_path_join final_dir f"
  have "filter P (trace (snd (seq (os_rename ?src ?dst w) (\<lambda>u. move_loop folder final_dir rest)))) =
        filter P (trace w)"
  proof (rule seq_obs [where obs = "\<lambda>w. filter P (trace w)"])
    fix e w1 assume "os_rename ?src ?dst w = (Inl e, w1)"
    then have "w1 = snd (os_rename ?src ?dst w)" by simp
    then show "filter P (trace w1) = filter P (trace w)"
      using assms by (simp add: os_rename_trace)
  next
    fix x w1 assume "os_rename ?src ?dst w = (Inr x, w1)"
    then have "w1 = snd (os_rename ?src ?dst w)" by simp
    then show "filter P (trace (snd (move_loop folder final_dir rest w1))) = filter P (trace w)"
      using assms Cons by (simp add: os_rename_trace)
  qed
  then show ?case by (simp add: Let_def)
qed

lemma move_folder_filter:
  assumes "\<And>p q. \<not> P (Ev_rename p q)"
  shows "filter P (trace (snd (if folder_exists folder w
            then seq (os_listdir folder w) (move_loop folder final_dir)
            else (Inr (), w)))) = filter P (trace w)"
proof (cases "folder_exists folder w")
  case False
  then show ?thesis by simp
next
  case True
  have "filter P (trace (snd (seq (os_listdir folder w) (move_loop folder final_dir)))) =
        filter P (trace w)"
  proof (rule seq_obs [where obs = "\<lambda>w. filter P (trace w)"])
    fix e w1 assume "os_listdir folder w = (Inl e, w1)"
    then have "w1 = snd (os_listdir folder w)" by simp
    then show "filter P (trace w1) = filter P (trace w)" by (simp add: os_listdir_world)
  next
    fix x w1 assume "os_listdir folder w = (Inr x, w1)"
    then have "w1 = snd (os_listdir folder w)" by simp
    then show "filter P (trace (snd (move_loop folder final_dir x w1))) = filter P (trace w)"
      using assms by (simp add: os_listdir_world move_loop_filter)
  qed
  with True show ?thesis by simp
qed

lemma move_folders_filter:
  assumes "\<And>p q. \<not> P (Ev_rename p q)"
  shows "filter P (trace (snd (move_folders final_dir folders w))) = filter P (trace w)"
proof (induction folders arbitrary: w)
  case Nil
  show ?case by simp
next
  case (Cons folder rest)
  let ?m = "if folder_exists folder w
            then seq (os_listdir folder w) (move_loop folder final_dir)
            else (Inr (), w)"
  have "filter P (trace (snd (seq ?m (\<lambda>u. move_folders final_dir rest)))) = filter P (trace w)"
  proof (rule seq_obs [where obs = "\<lambda>w. filter P (trace w)"])
    fix e w1 assume "?m = (Inl e, w1)"
    then have "w1 = snd ?m" by simp
    then show "filter P (trace w1) = filter P (trace w)"
      using move_folder_filter [of P folder w final_dir] assms by simp
  next
    fix x w1 assume "?m = (Inr x, w1)"
    then have "w1 = snd ?m" by simp
    then show "filter P (trace (snd (move_folders final_dir rest w1))) = filter P (trace w)"
      using move_folder_filter [of P folder w final_dir] assms Cons by simp
  qed
  then show ?case by simp
qed

lemma organize_outputs_filter:
  assumes "\<And>p q. \<not> P (Ev_rename p q)" "\<And>p. \<not> P (Ev_makedirs p)"
  shows "filter P (trace (snd (organize_outputs w))) = filter P (trace w)"
  unfolding organize_outputs_def
proof (rule seq_obs [where obs = "\<lambda>w. filter P (trace w)"])
  fix e w1 assume "os_makedirs LOCAL_PROCESSED w = (Inl e, w1)"
  then have "w1 = snd (os_makedirs LOCAL_PROCESSED w)" by simp
  then show "filter P (trace w1) = filter P (trace w)"
    using assms by (simp add: os_makedirs_trace)
next
  fix x w1 assume "os_makedirs LOCAL_PROCESSED w = (Inr x, w1)"
  then have w1: "w1 = snd (os_makedirs LOCAL_PROCESSED w)" by simp
  let ?ts = "strftime (datetime_now w1)"
  let ?fd = "run_dir ?ts"
  have "filter P (trace (snd (seq (os_makedirs ?fd w1)
           (\<lambda>u w2. seq (move_folders ?fd [LOCAL_EXPORTS, PLOTS] w2)
                      (\<lambda>u w3. (Inr (?ts, ?fd), w3)))))) = filter P (trace w)"
  proof (rule seq_obs [where obs = "\<lambda>w. filter P (trace w)"])
    fix e w2 assume "os_makedirs ?fd w1 = (Inl e, w2)"
    then have "w2 = snd (os_makedirs ?fd w1)" by simp
    then show "filter P (trace w2) = filter P (trace w)"
      using assms w1 by (simp add: os_makedirs_trace)
  next
    fix x w2 assume "os_makedirs ?fd w1 = (Inr x, w2)"
    then have w2: "w2 = snd (os_makedirs ?fd w1)" by simp
    show "filter P (trace (snd (seq (move_folders ?fd [LOCAL_EXPORTS, PLOTS] w2)
                      (\<lambda>u w3. (Inr (?ts, ?fd), w3))))) = filter P (trace w)"
    proof (rule seq_obs [where obs = "\<lambda>w. filter P (trace w)"])
      fix e w3 assume "move_folders ?fd [LOCAL_EXPORTS, PLOTS] w2 = (Inl e, w3)"
      then have "w3 = snd (move_folders ?fd [LOCAL_EXPORTS, PLOTS] w2)" by simp
      then show "filter P (trace w3) = filter P (trace w)"
        using assms w1 w2 move_folders_filter [of P ?fd "[LOCAL_EXPORTS, PLOTS]" w2]
        by (simp add: os_makedirs_trace)
    next
      fix x w3 assume "move_folders ?fd [LOCAL_EXPORTS, PLOTS] w2 = (Inr x, w3)"
      then have "w3 = snd (move_folders ?fd [LOCAL_EXPORTS, PLOTS] w2)" by simp
      then show "filter P (trace (snd (Inr (?ts, ?fd), w3))) = filter P (trace w)"
        using assms w1 w2 move_folders_filter [of P ?fd "[LOCAL_EXPORTS, PLOTS]" w2]
        by (simp add: os_makedirs_trace)
    qed
  qed
  then show "filter P (trace (snd (let timestamp = strftime (datetime_now w1); final_dir = run_dir timestamp
         in seq (os_makedirs final_dir w1)
             (\<lambda>u w2. seq (move_folders final_dir [LOCAL_EXPORTS, PLOTS] w2)
                      (\<lambda>u w3. (Inr (timestamp, final_dir), w3)))))) = filter P (trace w)"
    by (simp add: Let_def)
qed

section \<open>The poll that finds the exports\<close>

lemma after_poll_filter:
  assumes "\<And>n p. \<not> P (Ev_GetContentFile n p)" "\<And>p. \<not> P (Ev_makedirs p)"
    "\<And>p q. \<not> P (Ev_rename p q)" "\<And>s. \<not> P (Ev_subprocess s)" "\<And>p. \<not> P (Ev_open_w p)"
  shows "filter P (trace (snd (after_poll files w))) = filter P (trace w)"
  unfolding after_poll_def
proof (rule seq_obs [where obs = "\<lambda>w. filter P (trace w)"])
  fix e w1 assume "download_files files w = (Inl e, w1)"
  then have "w1 = snd (download_files files w)" by simp
  then show "filter P (trace w1) = filter P (trace w)"
    using assms by (simp add: download_files_filter)
next
  fix x w1 assume "download_files files w = (Inr x, w1)"
  then have "w1 = snd (download_files files w)" by simp
  then have w1: "filter P (trace w1) = filter P (trace w)"
    using assms by (simp add: download_files_filter)
  show "filter P (trace (snd (seq (subprocess_run PROCESS_SCRIPT w1)
          (\<lambda>u w2. seq (organize_outputs w2) (\<lambda>r. write_summary (snd r) (fst r) files))))) =
        filter P (trace w)"
  proof (rule seq_obs [where obs = "\<lambda>w. filter P (trace w)"])
    fix e w2 assume "subprocess_run PROCESS_SCRIPT w1 = (Inl e, w2)"
    then have "w2 = snd (subprocess_run PROCESS_SCRIPT w1)" by simp
    then show "filter P (trace w2) = filter P (trace w)"
      using assms w1 by (simp add: subprocess_run_trace)
  next
    fix x w2 assume "subprocess_run PROCESS_SCRIPT w1 = (Inr x, w2)"
    then have "w2 = snd (subprocess_run PROCESS_SCRIPT w1)" by simp
    then have w2: "filter P (trace w2) = filter P (trace w)"
      using assms w1 by (simp add: subprocess_run_trace)
    show "filter P (trace (snd (seq (organize_outputs w2)
            (\<lambda>r. write_summary (snd r) (fst r) files)))) = filter P (trace w)"
    proof (rule seq_obs [where obs = "\<lambda>w. filter P (trace w)"])
      fix e w3 assume "organize_outputs w2 = (Inl e, w3)"
      then have "w3 = snd (organize_outputs w2)" by simp
      then show "filter P (trace w3) = filter P (trace w)"
        using assms w2 by (simp add: organize_outputs_filter)
    next
      fix r w3 assume "organize_outputs w2 = (Inr r, w3)"
      then have "w3 = snd (organize_outputs w2)" by simp
      then have "filter P (trace w3) = filter P (trace w)"
        using assms w2 by (simp add: organize_outputs_filter)
      then show "filter P (trace (snd (write_summary (snd r) (fst r) files w3))) = filter P (trace w)"
        using assms by (simp add: write_summary_def Let_def open_w_trace)
    qed
  qed
qed

lemma list_drive_files_polls:
  "polls (snd (list_drive_files n w)) = Suc (polls w)"
  by (simp add: polls_def list_drive_files_def seq_def ListFile_def Let_def log_def tick_def
      split: option.splits list.splits)

lemma empty_round_polls_any:
  "polls (empty_round wait_time w) = Suc (polls w)"
  using list_drive_files_polls [of EXPORT_FOLDER w]
  by (simp add: empty_round_def time_sleep_def polls_def log_def tick_def)

lemma rounds_polls_any:
  "polls ((empty_round wait_time ^^ k) w) = polls w + k"
  by (induction k) (simp_all add: empty_round_polls_any)

lemma poll_loop_found:
  assumes "\<forall>j<k. clock ((empty_round wait_time ^^ j) w) - start_time < int max_wait \<and>
                 fst (list_drive_files EXPORT_FOLDER ((empty_round wait_time ^^ j) w)) = Inr []"
      and "clock ((empty_round wait_time ^^ k) w) - start_time < int max_wait"
      and "list_drive_files EXPORT_FOLDER ((empty_round wait_time ^^ k) w) = (Inr files, w')"
      and "files \<noteq> []"
  shows "poll_loop wait_time max_wait start_time w = Some (Inr (True, files), w')"
  using assms
proof (induction k arbitrary: w)
  case 0
  then show ?case by (subst poll_loop.simps) simp
next
  case (Suc k)
  let ?R = "empty_round wait_time"
  from Suc.prems(1) have first: "clock w - start_time < int max_wait"
    "fst (list_drive_files EXPORT_FOLDER w) = Inr []"
    by (auto dest: spec [of _ 0])
  have step: "poll_loop wait_time max_wait start_time w =
              poll_loop wait_time max_wait start_time (?R w)"
  proof -
    obtain r w1 where rw: "list_drive_files EXPORT_FOLDER w = (r, w1)"
      by (cases "list_drive_files EXPORT_FOLDER w")
    with first(2) have "r = Inr []" by simp
    with rw first(1) show ?thesis
      by (subst poll_loop.simps) (simp add: empty_round_def)
  qed
  have "\<forall>j<k. clock ((?R ^^ j) (?R w)) - start_time < int max_wait \<and>
              fst (list_drive_files EXPORT_FOLDER ((?R ^^ j) (?R w))) = Inr []"
  proof (intro allI impI)
    fix j assume "j < k"
    then have "Suc j < Suc k" by simp
    with Suc.prems(1) show "clock ((?R ^^ j) (?R w)) - start_time < int max_wait \<and>
              fst (list_drive_files EXPORT_FOLDER ((?R ^^ j) (?R w))) = Inr []"
      by (metis funpow_Suc_right o_apply)
  qed
  moreover have "clock ((?R ^^ k) (?R w)) - start_time < int max_wait"
    using Suc.prems(2) by (simp add: funpow_swap1)
  moreover have "list_drive_files EXPORT_FOLDER ((?R ^^ k) (?R w)) = (Inr files, w')"
    using Suc.prems(3) by (simp add: funpow_swap1)
  ultimately have "poll_loop wait_time max_wait start_time (?R w) = Some (Inr (True, files), w')"
    using Suc.prems(4) by (rule Suc.IH)
  with step show ?case by simp
qed

text \<open>
  C4: when the attempts before the \<open>(k+1)\<close>-th are made within the window and list
  nothing, and the \<open>(k+1)\<close>-th, made within the window, lists \<open>files\<close> (not empty), the
  poller returns exactly \<open>files\<close>, in the world that this listing left: it has made
  \<open>k + 1\<close> attempts and nothing after the last. The rest of the run (download,
  processing, archival, summary) sends no listing request, so what is added to the
  folder later is not seen.
\<close>

theorem first_listing_is_returned:
  assumes "\<forall>j<k. clock ((empty_round wait_time ^^ j) w) - clock w < int max_wait \<and>
                 fst (list_drive_files EXPORT_FOLDER ((empty_round wait_time ^^ j) w)) = Inr []"
      and "clock ((empty_round wait_time ^^ k) w) - clock w < int max_wait"
      and "list_drive_files EXPORT_FOLDER ((empty_round wait_time ^^ k) w) = (Inr files, w')"
      and "files \<noteq> []"
  shows "wait_for_exports wait_time max_wait w = Some (Inr files, w') \<and>
         polls w' = polls w + Suc k \<and>
         filter is_listing (trace (snd (after_poll files w'))) = filter is_listing (trace w')"
proof -
  have "poll_loop wait_time max_wait (clock w) w = Some (Inr (True, files), w')"
    using assms by (rule poll_loop_found)
  then have "wait_for_exports wait_time max_wait w = Some (Inr files, w')"
    by (simp add: wait_for_exports_def)
  moreover have "polls w' = polls w + Suc k"
    using list_drive_files_polls [of EXPORT_FOLDER "(empty_round wait_time ^^ k) w"] assms(3)
    by (simp add: rounds_polls_any)
  moreover have "filter is_listing (trace (snd (after_poll files w'))) = filter is_listing (trace w')"
    by (rule after_poll_filter) simp_all
  ultimately show ?thesis by simp
qed

theorem first_listing_is_returned_witness:
  "\<exists>w'. wait_for_exports 300 7200 late_world = Some (Inr [export_a], w') \<and>
         polls w' = 2 \<and>
         filter is_listing (trace (snd (after_poll [export_a] w'))) = filter is_listing (trace w')"
proof -
  let ?R = "empty_round 300"
  let ?w' = "snd (list_drive_files EXPORT_FOLDER ((?R ^^ 1) late_world))"
  have h1: "\<forall>j<1. clock ((?R ^^ j) late_world) - clock late_world < int 7200 \<and>
                 fst (list_drive_files EXPORT_FOLDER ((?R ^^ j) late_world)) = Inr []"
    by (simp add: late_world_def base_world_def sar_folder_def export_a_def EXPORT_FOLDER_def
        list_drive_files_def ListFile_def seq_def log_def tick_def Let_def)
  have h2: "clock ((?R ^^ 1) late_world) - clock late_world < int 7200"
    by (simp add: late_world_def base_world_def sar_folder_def export_a_def EXPORT_FOLDER_def
        empty_round_def time_sleep_def list_drive_files_def ListFile_def seq_def log_def tick_def Let_def)
  have h3: "list_drive_files EXPORT_FOLDER ((?R ^^ 1) late_world) = (Inr [export_a], ?w')"
    by (simp add: late_world_def base_world_def sar_folder_def export_a_def EXPORT_FOLDER_def
        empty_round_def time_sleep_def list_drive_files_def ListFile_def seq_def log_def tick_def Let_def)
  have h4: "[export_a] \<noteq> []" by simp
  have p: "polls late_world = 0"
    by (simp add: polls_def late_world_def base_world_def)
  show ?thesis
    using first_listing_is_returned [OF h1 h2 h3 h4] p
    by (intro exI [of _ ?w']) simp
qed

section \<open>The file tree under its operations\<close>

lemma lookup_append:
  "lookup t (p @ q) = (case lookup t p of None \<Rightarrow> None | Some m \<Rightarrow> lookup m q)"
  by (induction t p rule: lookup.induct) (auto split: option.splits)

lemma lookup_single:
  "lookup (Dir es) [x] = map_of es x"
  by (simp split: option.splits)

lemma lookup_upd_dir_same:
  "lookup (upd_dir d g t) d =
     (case lookup t d of Some (Dir es) \<Rightarrow> Some (Dir (g es)) | r \<Rightarrow> r)"
proof (induction d g t rule: upd_dir.induct)
  case (4 x xs g es)
  then show ?case
    by (cases "map_of es x") (simp_all add: update_conv')
qed simp_all

lemma lookup_upd_dir_diverge:
  "\<not> prefix d q \<Longrightarrow> \<not> prefix q d \<Longrightarrow> lookup (upd_dir d g t) q = lookup t q"
proof (induction d g t arbitrary: q rule: upd_dir.induct)
  case (4 x xs g es)
  then obtain y ys where q: "q = y # ys" by (cases q) auto
  show ?case
  proof (cases "map_of es x")
    case None
    then show ?thesis by simp
  next
    case (Some m)
    show ?thesis
    proof (cases "y = x")
      case True
      with 4 q Some show ?thesis by (simp add: update_conv')
    next
      case False
      with q Some show ?thesis by (simp add: update_conv')
    qed
  qed
qed simp_all



lemma entries_upd_dir_same:
  "entries (upd_dir d g t) d = map_option g (entries t d)"
  by (simp add: entries_def lookup_upd_dir_same split: option.splits node.splits)

lemma entries_upd_dir_diverge:
  "\<not> prefix d q \<Longrightarrow> \<not> prefix q d \<Longrightarrow> entries (upd_dir d g t) q = entries t q"
  by (simp add: entries_def lookup_upd_dir_diverge)

lemma lookup_child:
  "lookup t (d @ [x]) = (case entries t d of None \<Rightarrow> None | Some es \<Rightarrow> map_of es x)"
  by (simp add: lookup_append entries_def split: option.splits node.splits)



lemma parent_error_None:
  "parent_error t p = None \<Longrightarrow> \<exists>es. lookup t (butlast p) = Some (Dir es)"
  by (auto simp: parent_error_def split: option.splits node.splits)





section \<open>Creating directories and files\<close>









section \<open>The download step\<close>










section \<open>The summary of a run that succeeds\<close>






section \<open>Where a failing run stops\<close>





























section \<open>A move that fails\<close>














section \<open>Moving the outputs into the run directory\<close>

text \<open>
  One \<open>os.rename\<close> of the move loop takes the entry \<open>n\<close> of the directory \<open>d1\<close> to the
  entry \<open>n\<close> of the directory \<open>d2\<close>, neither directory lying inside the other.
\<close>

lemma rename_move:
  assumes r: "rename pf t (d1 @ [n]) (d2 @ [n]) = Inr t'"
      and div: "\<not> prefix d1 d2" "\<not> prefix d2 d1"
  shows "\<exists>es1 es2 x. entries t d1 = Some es1 \<and> map_of es1 n = Some x \<and>
           entries t d2 = Some es2 \<and>
           t' = upd_dir d2 (AList.update n x) (upd_dir d1 (AList.delete n) t) \<and>
           (pf = Windows \<longrightarrow> map_of es2 n = None)"
proof -
  from r obtain x where x: "lookup t (d1 @ [n]) = Some x"
    by (auto simp: rename_def split: option.splits)
  then obtain es1 where es1: "entries t d1 = Some es1" "map_of es1 n = Some x"
    by (auto simp: lookup_child split: option.splits)
  from div have ne: "d1 @ [n] \<noteq> d2 @ [n]" by auto
  from r x have pe: "parent_error t (d2 @ [n]) = None"
    by (auto simp: rename_def split: option.splits if_splits)
  then obtain es2 where es2: "entries t d2 = Some es2"
    by (auto simp: entries_def dest!: parent_error_None)
  from r x pe ne have t': "t' = put (remove t (d1 @ [n])) (d2 @ [n]) x"
    by (auto simp: rename_def split: option.splits if_splits node.splits)
  from r x pe ne have win: "pf = Windows \<longrightarrow> lookup t (d2 @ [n]) = None"
    by (auto simp: rename_def split: option.splits if_splits node.splits)
  with es2 have "pf = Windows \<longrightarrow> map_of es2 n = None" by (simp add: lookup_child)
  with es1 es2 t' show ?thesis by (simp add: put_def remove_def)
qed

lemma rename_move_src:
  assumes "rename pf t (d1 @ [n]) (d2 @ [n]) = Inr t'" "\<not> prefix d1 d2" "\<not> prefix d2 d1"
      and "entries t d1 = Some es1"
  shows "entries t' d1 = Some (AList.delete n es1)"
  using rename_move [OF assms(1-3)] assms(2-4)
  by (auto simp: entries_upd_dir_diverge entries_upd_dir_same)

lemma rename_move_dst:
  assumes "rename pf t (d1 @ [n]) (d2 @ [n]) = Inr t'" "\<not> prefix d1 d2" "\<not> prefix d2 d1"
  shows "lookup t' (d2 @ [k]) = (if k = n then lookup t (d1 @ [n]) else lookup t (d2 @ [k]))"
  using rename_move [OF assms(1-3)] assms(2-3)
  by (auto simp: lookup_child entries_upd_dir_diverge entries_upd_dir_same update_conv')

lemma rename_move_other:
  assumes "rename pf t (d1 @ [n]) (d2 @ [n]) = Inr t'" "\<not> prefix d1 d2" "\<not> prefix d2 d1"
      and "\<not> prefix d1 q" "\<not> prefix q d1" "\<not> prefix d2 q" "\<not> prefix q d2"
  shows "lookup t' q = lookup t q"
  using rename_move [OF assms(1-3)] assms(4-7)
  by (auto simp: lookup_upd_dir_diverge)

lemma rename_move_windows:
  assumes "rename Windows t (d1 @ [n]) (d2 @ [n]) = Inr t'" "\<not> prefix d1 d2" "\<not> prefix d2 d1"
  shows "lookup t (d2 @ [n]) = None"
  using rename_move [OF assms(1-3)] by (auto simp: lookup_child)

lemma os_rename_Inr:
  "os_rename src dst w = (Inr u, w1) \<Longrightarrow>
     rename (host w) (disk w) src dst = Inr (disk w1) \<and> host w1 = host w"
  by (auto simp: os_rename_def Let_def log_def split: sum.splits)

lemma filter_delete:
  "filter (\<lambda>kv. fst kv \<notin> set rest) (AList.delete n es) =
   filter (\<lambda>kv. fst kv \<notin> set (n # rest)) es"
  by (induction es) (auto simp: AList.delete_eq)

lemma move_loop_Inr:
  assumes "move_loop d1 d2 names w = (Inr (), w')"
      and "\<not> prefix d1 d2" "\<not> prefix d2 d1"
      and "entries (disk w) d1 = Some es1"
  shows "distinct names \<and> set names \<subseteq> fst ` set es1 \<and>
         entries (disk w') d1 = Some (filter (\<lambda>kv. fst kv \<notin> set names) es1) \<and>
         (\<forall>k. lookup (disk w') (d2 @ [k]) =
                (if k \<in> set names then map_of es1 k else lookup (disk w) (d2 @ [k]))) \<and>
         (\<forall>q. \<not> prefix d1 q \<and> \<not> prefix q d1 \<and> \<not> prefix d2 q \<and> \<not> prefix q d2 \<longrightarrow>
                lookup (disk w') q = lookup (disk w) q) \<and>
         host w' = host w \<and>
         (host w = Windows \<longrightarrow> (\<forall>k \<in> set names. lookup (disk w) (d2 @ [k]) = None))"
  using assms(1,4)
proof (induction names arbitrary: w es1)
  case Nil
  then show ?case by simp
next
  case (Cons f rest)
  from Cons.prems(1) obtain u w1 where
    r: "os_rename (d1 @ [f]) (d2 @ [f]) w = (Inr u, w1)"
    and l: "move_loop d1 d2 rest w1 = (Inr (), w')"
    by (auto simp: Let_def os_path_join_def dest: seq_Inr)
  from os_rename_Inr [OF r] have
    rn: "rename (host w) (disk w) (d1 @ [f]) (d2 @ [f]) = Inr (disk w1)"
    and h1: "host w1 = host w" by simp_all
  note div = assms(2,3)
  from rename_move [OF rn div] Cons.prems(2) obtain x where x: "map_of es1 f = Some x" by auto
  have src: "entries (disk w1) d1 = Some (AList.delete f es1)"
    using rn div Cons.prems(2) by (rule rename_move_src)
  have dst: "\<And>k. lookup (disk w1) (d2 @ [k]) =
      (if k = f then lookup (disk w) (d1 @ [f]) else lookup (disk w) (d2 @ [k]))"
    using rn div by (rule rename_move_dst)
  have oth: "\<And>q. \<not> prefix d1 q \<Longrightarrow> \<not> prefix q d1 \<Longrightarrow> \<not> prefix d2 q \<Longrightarrow> \<not> prefix q d2 \<Longrightarrow>
      lookup (disk w1) q = lookup (disk w) q"
    using rn div by (rule rename_move_other)
  have lf: "lookup (disk w) (d1 @ [f]) = Some x"
    using x Cons.prems(2) by (simp add: lookup_child)
  from Cons.IH [OF l src] have
    i1: "distinct rest" and i2: "set rest \<subseteq> fst ` set (AList.delete f es1)"
    and i3: "entries (disk w') d1 =
              Some (filter (\<lambda>kv. fst kv \<notin> set rest) (AList.delete f es1))"
    and i4: "\<And>k. lookup (disk w') (d2 @ [k]) =
              (if k \<in> set rest then map_of (AList.delete f es1) k
               else lookup (disk w1) (d2 @ [k]))"
    and i5: "\<And>q. \<not> prefix d1 q \<Longrightarrow> \<not> prefix q d1 \<Longrightarrow> \<not> prefix d2 q \<Longrightarrow> \<not> prefix q d2 \<Longrightarrow>
              lookup (disk w') q = lookup (disk w1) q"
    and i6: "host w' = host w1"
    and i7: "host w1 = Windows \<longrightarrow> (\<forall>k \<in> set rest. lookup (disk w1) (d2 @ [k]) = None)"
    by simp_all
  from i2 have fr: "f \<notin> set rest" by (auto simp: AList.delete_eq)
  from i2 have sub: "set rest \<subseteq> fst ` set es1" by (auto simp: AList.delete_eq)
  from x have fin: "f \<in> fst ` set es1" by (metis map_of_SomeD fst_conv image_eqI)
  have c1: "distinct (f # rest)" using i1 fr by simp
  have c2: "set (f # rest) \<subseteq> fst ` set es1" using sub fin by simp
  have c3: "entries (disk w') d1 = Some (filter (\<lambda>kv. fst kv \<notin> set (f # rest)) es1)"
    using i3 by (simp only: filter_delete)
  have c4: "\<forall>k. lookup (disk w') (d2 @ [k]) =
      (if k \<in> set (f # rest) then map_of es1 k else lookup (disk w) (d2 @ [k]))"
  proof
    fix k
    show "lookup (disk w') (d2 @ [k]) =
      (if k \<in> set (f # rest) then map_of es1 k else lookup (disk w) (d2 @ [k]))"
      using i4 [of k] dst [of k] lf x fr by (auto simp: delete_conv')
  qed
  have c5: "\<forall>q. \<not> prefix d1 q \<and> \<not> prefix q d1 \<and> \<not> prefix d2 q \<and> \<not> prefix q d2 \<longrightarrow>
                lookup (disk w') q = lookup (disk w) q"
    using i5 oth by simp
  have c6: "host w' = host w" using i6 h1 by simp
  have c7: "host w = Windows \<longrightarrow> (\<forall>k \<in> set (f # rest). lookup (disk w) (d2 @ [k]) = None)"
  proof
    assume win: "host w = Windows"
    with rn div have a: "lookup (disk w) (d2 @ [f]) = None"
      by (simp add: rename_move_windows)
    from win h1 i7 have "\<forall>k \<in> set rest. lookup (disk w1) (d2 @ [k]) = None" by simp
    with dst fr have "\<forall>k \<in> set rest. lookup (disk w) (d2 @ [k]) = None"
      by (metis (full_types))
    with a show "\<forall>k \<in> set (f # rest). lookup (disk w) (d2 @ [k]) = None" by simp
  qed
  from c1 c2 c3 c4 c5 c6 c7 show ?case by blast
qed

lemma move_folders_Cons_Inr:
  assumes "move_folders d2 (d1 # rest) w = (Inr (), w')"
  shows "\<exists>w1. move_folders d2 [d1] w = (Inr (), w1) \<and> move_folders d2 rest w1 = (Inr (), w')"
proof -
  let ?m = "if folder_exists d1 w then seq (os_listdir d1 w) (move_loop d1 d2) else (Inr (), w)"
  from assms have "seq ?m (\<lambda>u. move_folders d2 rest) = (Inr (), w')" by simp
  then obtain u w1 where m: "?m = (Inr u, w1)" and r: "move_folders d2 rest w1 = (Inr (), w')"
    by (blast dest: seq_Inr)
  from m have "move_folders d2 [d1] w = (Inr (), w1)" by (simp add: seq_def)
  with r show ?thesis by blast
qed

lemma move_folder_Inr:
  assumes m: "move_folders d2 [d1] w = (Inr (), w')"
      and div: "\<not> prefix d1 d2" "\<not> prefix d2 d1"
  shows "(folder_exists d1 w \<longrightarrow> entries (disk w') d1 = Some []) \<and>
         (\<forall>k. lookup (disk w') (d2 @ [k]) =
                (case lookup (disk w) (d1 @ [k]) of
                   Some x \<Rightarrow> Some x
                 | None \<Rightarrow> lookup (disk w) (d2 @ [k]))) \<and>
         (\<forall>q. \<not> prefix d1 q \<and> \<not> prefix q d1 \<and> \<not> prefix d2 q \<and> \<not> prefix q d2 \<longrightarrow>
                lookup (disk w') q = lookup (disk w) q) \<and>
         host w' = host w \<and>
         (host w = Windows \<longrightarrow>
            (\<forall>k. lookup (disk w) (d1 @ [k]) \<noteq> None \<longrightarrow> lookup (disk w) (d2 @ [k]) = None))"
proof (cases "folder_exists d1 w")
  case False
  with m have w': "w' = w" by (simp add: seq_def)
  from False have "entries (disk w) d1 = None"
    by (auto simp: folder_exists_def isdir_def entries_def split: option.splits node.splits)
  then have "\<And>k. lookup (disk w) (d1 @ [k]) = None" by (simp add: lookup_child)
  with False w' show ?thesis by simp
next
  case True
  then obtain es1 where es1: "entries (disk w) d1 = Some es1"
    by (auto simp: folder_exists_def isdir_def entries_def split: option.splits node.splits)
  then have "os_listdir d1 w = (Inr (remdups (map fst es1)), w)"
    by (auto simp: os_listdir_def listdir_def entries_def split: option.splits node.splits)
  with m True have l: "move_loop d1 d2 (remdups (map fst es1)) w = (Inr (), w')"
    by (auto simp: seq_def split: prod.splits sum.splits)
  have ch: "\<And>k. lookup (disk w) (d1 @ [k]) = map_of es1 k"
    using es1 by (simp add: lookup_child)
  have mem: "\<And>k. k \<in> set (remdups (map fst es1)) \<longleftrightarrow> map_of es1 k \<noteq> None"
    by (simp add: map_of_eq_None_iff)
  from move_loop_Inr [OF l div es1] have
    a: "entries (disk w') d1 =
          Some (filter (\<lambda>kv. fst kv \<notin> set (remdups (map fst es1))) es1)"
    and b: "\<And>k. lookup (disk w') (d2 @ [k]) =
          (if k \<in> set (remdups (map fst es1)) then map_of es1 k else lookup (disk w) (d2 @ [k]))"
    and c: "\<forall>q. \<not> prefix d1 q \<and> \<not> prefix q d1 \<and> \<not> prefix d2 q \<and> \<not> prefix q d2 \<longrightarrow>
                lookup (disk w') q = lookup (disk w) q"
    and d: "host w' = host w"
    and e: "host w = Windows \<longrightarrow>
              (\<forall>k \<in> set (remdups (map fst es1)). lookup (disk w) (d2 @ [k]) = None)"
    by simp_all
  have "filter (\<lambda>kv. fst kv \<notin> set (remdups (map fst es1))) es1 = []"
    by (auto simp: filter_empty_conv)
  with a have a': "entries (disk w') d1 = Some []" by simp
  have b': "\<forall>k. lookup (disk w') (d2 @ [k]) =
                (case lookup (disk w) (d1 @ [k]) of
                   Some x \<Rightarrow> Some x
                 | None \<Rightarrow> lookup (disk w) (d2 @ [k]))"
  proof
    fix k
    show "lookup (disk w') (d2 @ [k]) =
                (case lookup (disk w) (d1 @ [k]) of
                   Some x \<Rightarrow> Some x
                 | None \<Rightarrow> lookup (disk w) (d2 @ [k]))"
      using b [of k] mem [of k] ch [of k] by (cases "map_of es1 k") simp_all
  qed
  have e': "host w = Windows \<longrightarrow>
            (\<forall>k. lookup (disk w) (d1 @ [k]) \<noteq> None \<longrightarrow> lookup (disk w) (d2 @ [k]) = None)"
  proof (intro impI allI)
    fix k
    assume "host w = Windows" "lookup (disk w) (d1 @ [k]) \<noteq> None"
    with e mem [of k] ch [of k] show "lookup (disk w) (d2 @ [k]) = None" by metis
  qed
  from a' b' c d e' show ?thesis by blast
qed

lemma sources_apart:
  "\<not> prefix LOCAL_EXPORTS (run_dir ts)" "\<not> prefix (run_dir ts) LOCAL_EXPORTS"
  "\<not> prefix PLOTS (run_dir ts)" "\<not> prefix (run_dir ts) PLOTS"
  "\<not> prefix LOCAL_EXPORTS PLOTS" "\<not> prefix PLOTS LOCAL_EXPORTS"
  "\<not> prefix LOCAL_EXPORTS (PLOTS @ [n])" "\<not> prefix (PLOTS @ [n]) LOCAL_EXPORTS"
  "\<not> prefix (run_dir ts) (PLOTS @ [n])" "\<not> prefix (PLOTS @ [n]) (run_dir ts)"
  by (simp_all add: run_dir_def os_path_join_def LOCAL_EXPORTS_def PLOTS_def LOCAL_PROCESSED_def)

lemma archive_run_dir:
  assumes "move_folders (run_dir ts) [LOCAL_EXPORTS, PLOTS] w = (Inr (), w')"
  shows "lookup (disk w') (os_path_join (run_dir ts) n) =
           (case lookup (disk w) (os_path_join PLOTS n) of
              Some x \<Rightarrow> Some x
            | None \<Rightarrow>
                (case lookup (disk w) (os_path_join LOCAL_EXPORTS n) of
                   Some x \<Rightarrow> Some x
                 | None \<Rightarrow> lookup (disk w) (os_path_join (run_dir ts) n)))"
proof -
  from move_folders_Cons_Inr [OF assms] obtain w1 where
    s1: "move_folders (run_dir ts) [LOCAL_EXPORTS] w = (Inr (), w1)"
    and s2: "move_folders (run_dir ts) [PLOTS] w1 = (Inr (), w')" by blast
  from move_folder_Inr [OF s1 sources_apart(1,2)] have
    g2: "\<And>k. lookup (disk w1) (run_dir ts @ [k]) =
                (case lookup (disk w) (LOCAL_EXPORTS @ [k]) of
                   Some x \<Rightarrow> Some x
                 | None \<Rightarrow> lookup (disk w) (run_dir ts @ [k]))"
    and g3: "\<And>q. \<not> prefix LOCAL_EXPORTS q \<Longrightarrow> \<not> prefix q LOCAL_EXPORTS \<Longrightarrow>
                \<not> prefix (run_dir ts) q \<Longrightarrow> \<not> prefix q (run_dir ts) \<Longrightarrow>
                lookup (disk w1) q = lookup (disk w) q"
    by simp_all
  from move_folder_Inr [OF s2 sources_apart(3,4)] have
    p2: "\<And>k. lookup (disk w') (run_dir ts @ [k]) =
                (case lookup (disk w1) (PLOTS @ [k]) of
                   Some x \<Rightarrow> Some x
                 | None \<Rightarrow> lookup (disk w1) (run_dir ts @ [k]))"
    by simp
  have plots1n: "\<And>n. lookup (disk w1) (PLOTS @ [n]) = lookup (disk w) (PLOTS @ [n])"
    by (rule g3) (rule sources_apart)+
  show ?thesis by (simp only: os_path_join_def p2 g2 plots1n)
qed

text \<open>
  C5: when the move loop of STEP 5 completes, each of the two source folders that was a
  directory is still there and is empty, so no entry is left in its source folder; and
  the run directory holds every entry of \<open>outputs/plots\<close>, every entry of \<open>outputs/gee\<close>
  whose name \<open>outputs/plots\<close> does not have, and what it held before under any other
  name. Under a name that both folders have, the entry of \<open>outputs/plots\<close>, the folder
  processed last, is the one that stays.
\<close>

theorem archive_is_relocation:
  assumes "move_folders (run_dir ts) [LOCAL_EXPORTS, PLOTS] w = (Inr (), w')"
  shows "(\<forall>folder \<in> set [LOCAL_EXPORTS, PLOTS].
            folder_exists folder w \<longrightarrow> entries (disk w') folder = Some []) \<and>
         (\<forall>folder \<in> set [LOCAL_EXPORTS, PLOTS].
            \<forall>n. lookup (disk w') (os_path_join folder n) = None) \<and>
         (\<forall>n. lookup (disk w') (os_path_join (run_dir ts) n) =
                (case lookup (disk w) (os_path_join PLOTS n) of
                   Some x \<Rightarrow> Some x
                 | None \<Rightarrow>
                     (case lookup (disk w) (os_path_join LOCAL_EXPORTS n) of
                        Some x \<Rightarrow> Some x
                      | None \<Rightarrow> lookup (disk w) (os_path_join (run_dir ts) n))))"
proof -
  from move_folders_Cons_Inr [OF assms] obtain w1 where
    s1: "move_folders (run_dir ts) [LOCAL_EXPORTS] w = (Inr (), w1)"
    and s2: "move_folders (run_dir ts) [PLOTS] w1 = (Inr (), w')" by blast
  from move_folder_Inr [OF s1 sources_apart(1,2)] have
    g1: "folder_exists LOCAL_EXPORTS w \<longrightarrow> entries (disk w1) LOCAL_EXPORTS = Some []"
    and g3: "\<And>q. \<not> prefix LOCAL_EXPORTS q \<Longrightarrow> \<not> prefix q LOCAL_EXPORTS \<Longrightarrow>
                \<not> prefix (run_dir ts) q \<Longrightarrow> \<not> prefix q (run_dir ts) \<Longrightarrow>
                lookup (disk w1) q = lookup (disk w) q"
    by simp_all
  from move_folder_Inr [OF s2 sources_apart(3,4)] have
    p1: "folder_exists PLOTS w1 \<longrightarrow> entries (disk w') PLOTS = Some []"
    and p3: "\<And>q. \<not> prefix PLOTS q \<Longrightarrow> \<not> prefix q PLOTS \<Longrightarrow>
                \<not> prefix (run_dir ts) q \<Longrightarrow> \<not> prefix q (run_dir ts) \<Longrightarrow>
                lookup (disk w') q = lookup (disk w1) q"
    by simp_all
  have plots1: "lookup (disk w1) PLOTS = lookup (disk w) PLOTS"
    by (rule g3) (rule sources_apart)+
  have gee': "lookup (disk w') LOCAL_EXPORTS = lookup (disk w1) LOCAL_EXPORTS"
    by (rule p3) (rule sources_apart)+
  have gee1: "\<not> folder_exists LOCAL_EXPORTS w \<Longrightarrow> w1 = w"
    using s1 by (simp add: seq_def)
  have plots': "\<not> folder_exists PLOTS w1 \<Longrightarrow> w' = w1"
    using s2 by (simp add: seq_def)
  have fe: "folder_exists PLOTS w1 = folder_exists PLOTS w"
    using plots1 by (simp add: folder_exists_def isdir_def)
  have A1: "folder_exists LOCAL_EXPORTS w \<longrightarrow> entries (disk w') LOCAL_EXPORTS = Some []"
    using g1 gee' by (simp add: entries_def)
  have A2: "folder_exists PLOTS w \<longrightarrow> entries (disk w') PLOTS = Some []"
    using p1 fe by simp
  have B1: "\<And>n. lookup (disk w') (os_path_join LOCAL_EXPORTS n) = None"
  proof (cases "folder_exists LOCAL_EXPORTS w")
    case True
    fix n
    from True A1 show "lookup (disk w') (os_path_join LOCAL_EXPORTS n) = None"
      by (simp add: os_path_join_def lookup_child)
  next
    case False
    fix n
    from False have "entries (disk w) LOCAL_EXPORTS = None"
      by (auto simp: folder_exists_def isdir_def entries_def split: option.splits node.splits)
    with gee1 [OF False] gee' have "entries (disk w') LOCAL_EXPORTS = None"
      by (simp add: entries_def)
    then show "lookup (disk w') (os_path_join LOCAL_EXPORTS n) = None"
      by (simp add: os_path_join_def lookup_child)
  qed
  have B2: "\<And>n. lookup (disk w') (os_path_join PLOTS n) = None"
  proof (cases "folder_exists PLOTS w")
    case True
    fix n
    from True A2 show "lookup (disk w') (os_path_join PLOTS n) = None"
      by (simp add: os_path_join_def lookup_child)
  next
    case False
    fix n
    from False fe have "entries (disk w1) PLOTS = None"
      by (auto simp: folder_exists_def isdir_def entries_def split: option.splits node.splits)
    moreover from False fe have "w' = w1" by (simp add: plots')
    ultimately show "lookup (disk w') (os_path_join PLOTS n) = None"
      by (simp add: os_path_join_def lookup_child)
  qed
  have C: "\<And>n. lookup (disk w') (os_path_join (run_dir ts) n) =
                (case lookup (disk w) (os_path_join PLOTS n) of
                   Some x \<Rightarrow> Some x
                 | None \<Rightarrow>
                     (case lookup (disk w) (os_path_join LOCAL_EXPORTS n) of
                        Some x \<Rightarrow> Some x
                      | None \<Rightarrow> lookup (disk w) (os_path_join (run_dir ts) n)))"
    using assms by (rule archive_run_dir)
  from A1 A2 B1 B2 C show ?thesis by simp
qed

text \<open>
  A run of the move loop on a POSIX host: \<open>change.png\<close> is in both folders, and the
  run directory ends with the one of \<open>outputs/plots\<close>.
\<close>

lemma archive_run:
  "move_folders (run_dir ''20251004_0905'') [LOCAL_EXPORTS, PLOTS] archive_world =
     (Inr (), archive_end)"
  by (simp add: archive_end_def archive_world_def eval_defs)

theorem archive_is_relocation_witness:
  "move_folders (run_dir ''20251004_0905'') [LOCAL_EXPORTS, PLOTS] archive_world =
     (Inr (), archive_end) \<and>
   entries (disk archive_end) LOCAL_EXPORTS = Some [] \<and>
   entries (disk archive_end) PLOTS = Some [] \<and>
   lookup (disk archive_end) (os_path_join LOCAL_EXPORTS ''S1_VV.tif'') = None \<and>
   lookup (disk archive_end) (os_path_join (run_dir ''20251004_0905'') ''S1_VV.tif'') =
     Some (File ''VV'') \<and>
   lookup (disk archive_end) (os_path_join (run_dir ''20251004_0905'') ''change.png'') =
     Some (File ''plots'')"
proof -
  note r = archive_is_relocation [OF archive_run]
  have g: "folder_exists LOCAL_EXPORTS archive_world" and p: "folder_exists PLOTS archive_world"
    by (simp_all add: archive_world_def eval_defs)
  from r g have a: "entries (disk archive_end) LOCAL_EXPORTS = Some []" by simp
  from r p have b: "entries (disk archive_end) PLOTS = Some []" by simp
  from r have c: "lookup (disk archive_end) (os_path_join LOCAL_EXPORTS ''S1_VV.tif'') = None"
    by simp
  from r have "\<forall>n. lookup (disk archive_end) (os_path_join (run_dir ''20251004_0905'') n) =
      (case lookup (disk archive_world) (os_path_join PLOTS n) of
         Some x \<Rightarrow> Some x
       | None \<Rightarrow>
           (case lookup (disk archive_world) (os_path_join LOCAL_EXPORTS n) of
              Some x \<Rightarrow> Some x
            | None \<Rightarrow> lookup (disk archive_world) (os_path_join (run_dir ''20251004_0905'') n)))"
    by blast
  then have d: "lookup (disk archive_end) (os_path_join (run_dir ''20251004_0905'') ''S1_VV.tif'') =
     Some (File ''VV'')"
    and e: "lookup (disk archive_end) (os_path_join (run_dir ''20251004_0905'') ''change.png'') =
     Some (File ''plots'')"
    by (simp_all add: archive_world_def eval_defs)
  from archive_run a b c d e show ?thesis by blast
qed

section \<open>A run directory that exists already\<close>









lemma move_folders_absent:
  "\<not> folder_exists d1 w \<Longrightarrow> move_folders d2 [d1] w = (Inr (), w)"
  by (simp add: seq_def)

















end
